theory Spec2Isabelle
  imports Main
begin

section \<open>The GnuCOBOL compiler adapter of \<^verbatim>\<open>mesonbuild/compilers/cobol.py\<close>\<close>

text \<open>
  The class \<^verbatim>\<open>CobolCompiler\<close> maps build parameters to command-line tokens and probes
  the toolchain once. Tokens and paths are Python \<^verbatim>\<open>str\<close> values, modelled as
  \<^typ>\<open>string\<close>; a token list is a \<^typ>\<open>string list\<close>. The path functions are those of
  \<^verbatim>\<open>posixpath\<close> (the module \<^verbatim>\<open>os.path\<close> on a POSIX host), whose separator \<^verbatim>\<open>/\<close> and
  extension separator \<^verbatim>\<open>.\<close> are ASCII, so that splitting a UTF-8 byte string at them
  agrees with splitting the code-point string.
\<close>

subsection \<open>String primitives of Python used by the code\<close>

definition sep :: string where
  "sep = ''/''"

text \<open>\<^verbatim>\<open>s.startswith(p)\<close> and \<^verbatim>\<open>s.endswith(p)\<close>.\<close>

definition startswith :: "string \<Rightarrow> string \<Rightarrow> bool" where
  "startswith s p = (take (length p) s = p)"

definition endswith :: "string \<Rightarrow> string \<Rightarrow> bool" where
  "endswith s p = (length p \<le> length s \<and> drop (length s - length p) s = p)"

text \<open>
  \<^verbatim>\<open>s[a:b]\<close> for indices \<open>0 \<le> a\<close>, \<open>0 \<le> b\<close>: a slice never raises, it is cut at the
  end of the string. \<^verbatim>\<open>s[:n]\<close> is \<^term>\<open>take n s\<close> and \<^verbatim>\<open>s[n:]\<close> is \<^term>\<open>drop n s\<close>.
\<close>

definition slice :: "string \<Rightarrow> int \<Rightarrow> int \<Rightarrow> string" where
  "slice s a b = take (nat (b - a)) (drop (nat a) s)"

text \<open>\<^verbatim>\<open>s.rfind(c)\<close> for a one-character \<^verbatim>\<open>c\<close>: the highest index of \<^verbatim>\<open>c\<close>, or \<open>-1\<close>.\<close>

primrec rfind :: "string \<Rightarrow> char \<Rightarrow> int" where
  "rfind [] c = - 1"
| "rfind (x # xs) c =
     (let r = rfind xs c in if 0 \<le> r then r + 1 else if x = c then 0 else - 1)"

text \<open>\<^verbatim>\<open>s.split(c)\<close> with an explicit separator: never empty, \<^verbatim>\<open>''.split('/') == ['']\<close>.\<close>

fun split_sep :: "char \<Rightarrow> string \<Rightarrow> string list" where
  "split_sep c [] = [[]]"
| "split_sep c (x # xs) =
     (if x = c then [] # split_sep c xs
      else (case split_sep c xs of
              [] \<Rightarrow> [[x]]
            | y # ys \<Rightarrow> (x # y) # ys))"

text \<open>\<^verbatim>\<open>s.join(comps)\<close>.\<close>

fun join_sep :: "string \<Rightarrow> string list \<Rightarrow> string" where
  "join_sep s [] = []"
| "join_sep s [x] = x"
| "join_sep s (x # y # ys) = x @ s @ join_sep s (y # ys)"

subsection \<open>\<^verbatim>\<open>posixpath.join\<close>, \<^verbatim>\<open>posixpath.normpath\<close>, \<^verbatim>\<open>posixpath.splitext\<close>\<close>

text \<open>
  The three functions belong to Python's standard library, not to the repository;
  they are written after \<^verbatim>\<open>Lib/posixpath.py\<close> and \<^verbatim>\<open>Lib/genericpath.py\<close> of CPython,
  statement by statement.
\<close>

text \<open>
  \<^verbatim>\<open>join(a, b)\<close> with one further component: an absolute \<^verbatim>\<open>b\<close> replaces \<^verbatim>\<open>a\<close>, otherwise
  \<^verbatim>\<open>b\<close> is appended, after a separator unless \<^verbatim>\<open>a\<close> is empty or ends with one.
\<close>

definition os_path_join :: "string \<Rightarrow> string \<Rightarrow> string" where
  "os_path_join a b =
     (if startswith b sep then b
      else if a = [] \<or> endswith a sep then a @ b
      else a @ sep @ b)"

text \<open>
  One round of the loop of \<^verbatim>\<open>normpath\<close> over the components: empty and \<^verbatim>\<open>.\<close> components
  are skipped, \<^verbatim>\<open>..\<close> pops the last kept component unless there is none to pop (it is
  then kept on a relative path and dropped at the root) or the last one is \<^verbatim>\<open>..\<close> itself.
\<close>

definition normpath_step :: "nat \<Rightarrow> string list \<Rightarrow> string \<Rightarrow> string list" where
  "normpath_step initial_slashes new_comps c =
     (if c = [] \<or> c = ''.'' then new_comps
      else if c \<noteq> ''..'' \<or> (initial_slashes = 0 \<and> new_comps = [])
              \<or> (new_comps \<noteq> [] \<and> last new_comps = ''..'')
        then new_comps @ [c]
      else if new_comps \<noteq> [] then butlast new_comps
      else new_comps)"

definition initial_slashes_of :: "string \<Rightarrow> nat" where
  "initial_slashes_of path =
     (if startswith path sep
      then (if startswith path (sep @ sep) \<and> \<not> startswith path (sep @ sep @ sep)
            then 2 else 1)
      else 0)"

definition os_path_normpath :: "string \<Rightarrow> string" where
  "os_path_normpath path =
     (if path = [] then ''.''
      else
        let initial_slashes = initial_slashes_of path;
            comps = split_sep (CHR ''/'') path;
            new_comps = foldl (normpath_step initial_slashes) [] comps;
            path1 = join_sep sep new_comps;
            path2 = (if initial_slashes \<noteq> 0
                     then concat (replicate initial_slashes sep) @ path1 else path1)
        in if path2 = [] then ''.'' else path2)"

text \<open>
  \<^verbatim>\<open>genericpath._splitext(p, sep, altsep, extsep)\<close>: the extension starts at the last
  dot, provided the dot lies after the last separator and some character of the file
  name before it is not a dot. The \<^verbatim>\<open>while\<close> loop skips the leading dots; \<^term>\<open>None\<close> is
  the loop running to its end without returning.
\<close>

function splitext_loop :: "string \<Rightarrow> char \<Rightarrow> int \<Rightarrow> int \<Rightarrow> (string \<times> string) option" where
  "splitext_loop p e dotIndex filenameIndex =
     (if filenameIndex < dotIndex
      then (if slice p filenameIndex (filenameIndex + 1) \<noteq> [e]
            then Some (take (nat dotIndex) p, drop (nat dotIndex) p)
            else splitext_loop p e dotIndex (filenameIndex + 1))
      else None)"
  by pat_completeness auto
termination
  by (relation "measure (\<lambda>(p, e, dotIndex, filenameIndex). nat (dotIndex - filenameIndex))") auto

definition splitext_generic :: "string \<Rightarrow> char \<Rightarrow> char option \<Rightarrow> char \<Rightarrow> string \<times> string" where
  "splitext_generic p s altsep e =
     (let sepIndex0 = rfind p s;
          sepIndex = (case altsep of None \<Rightarrow> sepIndex0
                      | Some a \<Rightarrow> max sepIndex0 (rfind p a));
          dotIndex = rfind p e
      in if dotIndex > sepIndex
         then (case splitext_loop p e dotIndex (sepIndex + 1) of
                 Some r \<Rightarrow> r
               | None \<Rightarrow> (p, []))
         else (p, []))"

definition os_path_splitext :: "string \<Rightarrow> string \<times> string" where
  "os_path_splitext p = splitext_generic p (CHR ''/'') None (CHR ''.'')"

subsection \<open>The argument translator\<close>

definition get_pic_args :: "string list" where
  "get_pic_args = []"

definition get_pie_args :: "string list" where
  "get_pie_args = []"

definition get_always_args :: "string list" where
  "get_always_args = []"

definition get_warn_args :: "string \<Rightarrow> string list" where
  "get_warn_args level = []"

definition get_depfile_suffix :: string where
  "get_depfile_suffix = ''d''"

definition depfile_for_object :: "string \<Rightarrow> string" where
  "depfile_for_object objfile = fst (os_path_splitext objfile) @ ''.'' @ get_depfile_suffix"

definition get_dependency_gen_args :: "string \<Rightarrow> string \<Rightarrow> string list" where
  "get_dependency_gen_args outtarget outfile = [''-MT'', depfile_for_object outtarget]"

definition get_include_args :: "string \<Rightarrow> bool \<Rightarrow> string list" where
  "get_include_args path is_system = [''-I'' @ path]"

text \<open>
  \<^verbatim>\<open>compute_parameters_with_absolute_paths\<close> walks the list by index and overwrites the
  entry it has just read; \<^verbatim>\<open>enumerate\<close> reads the list as it is at each step. The loop
  is recursion on the index, the list passed along updated.
\<close>

function compute_loop :: "string \<Rightarrow> nat \<Rightarrow> string list \<Rightarrow> string list" where
  "compute_loop build_dir idx parameter_list =
     (if idx < length parameter_list
      then (let i = parameter_list ! idx
            in compute_loop build_dir (idx + 1)
                 (if take 2 i = ''-I'' \<or> take 2 i = ''-L''
                  then parameter_list
                         [idx := take 2 i @ os_path_normpath (os_path_join build_dir (drop 2 i))]
                  else parameter_list))
      else parameter_list)"
  by pat_completeness auto
termination
  by (relation "measure (\<lambda>(build_dir, idx, parameter_list). length parameter_list - idx)") auto

definition compute_parameters_with_absolute_paths :: "string list \<Rightarrow> string \<Rightarrow> string list" where
  "compute_parameters_with_absolute_paths parameter_list build_dir =
     compute_loop build_dir 0 parameter_list"

subsection \<open>The sanity prober\<close>

text \<open>
  \<^verbatim>\<open>sanity_check\<close> writes a file and runs two processes. The host is a record of the
  three operations over a state \<open>'w\<close> of the outside world: each takes the world and
  returns its outcome with the world after it. An operation the operating system
  refuses raises \<^verbatim>\<open>OSError\<close> in Python: the outcome is then the message (\<^term>\<open>Some e\<close> for
  the write, \<^term>\<open>Inl e\<close> for a process), otherwise the exit status of the process.
  \<^verbatim>\<open>popen_wait\<close> is \<^verbatim>\<open>subprocess.Popen(argv, cwd=...)\<close> followed by \<^verbatim>\<open>wait()\<close>.
\<close>

datatype exn = EnvironmentException string | OSError string

datatype event = WriteFile string string | Popen "string list" string | Call string

record 'w host =
  write_file :: "string \<Rightarrow> string \<Rightarrow> 'w \<Rightarrow> string option \<times> 'w"
  popen_wait :: "string list \<Rightarrow> string \<Rightarrow> 'w \<Rightarrow> (string + int) \<times> 'w"
  subprocess_call :: "string \<Rightarrow> 'w \<Rightarrow> (string + int) \<times> 'w"

record CobolCompiler =
  exelist :: "string list"
  version :: string
  is_cross :: bool

text \<open>The fixed-form program written to \<^verbatim>\<open>coboltest.cob\<close>, line feeds and quotes by code.\<close>

definition sanity_source :: string where
  "sanity_source =
     [CHR 0x0A] @ ''      * COBOL fixed-form must be indented'' @
     [CHR 0x0A] @ ''000100 IDENTIFICATION DIVISION.'' @
     [CHR 0x0A] @ ''000200 PROGRAM-ID. hello.'' @
     [CHR 0x0A] @ ''000300 PROCEDURE DIVISION.'' @
     [CHR 0x0A] @ ''000400 DISPLAY '' @ [CHR 0x22] @ ''Cobol compilation is working.''
                @ [CHR 0x22] @ ''.'' @
     [CHR 0x0A] @ ''000500 STOP RUN.'' @
     [CHR 0x0A] @ ''            ''"

definition cannot_compile_message :: "string \<Rightarrow> string" where
  "cannot_compile_message name = ''Cobol compiler '' @ name @ '' cannot compile programs.''"

definition not_runnable_message :: "string \<Rightarrow> string" where
  "not_runnable_message name =
     ''Executables created by Cobol compiler '' @ name @ '' are not runnable.''"

text \<open>
  \<^verbatim>\<open>name_string\<close> is a method of the base class \<^verbatim>\<open>Compiler\<close>, taken as a parameter. The
  result is the exception raised (\<^term>\<open>Inl\<close>) or the normal return, with the operations
  attempted, in order, and the world left behind.
\<close>

definition sanity_check ::
  "'w host \<Rightarrow> (CobolCompiler \<Rightarrow> string) \<Rightarrow> CobolCompiler \<Rightarrow> string \<Rightarrow> 'w
     \<Rightarrow> (exn + unit) \<times> event list \<times> 'w" where
  "sanity_check h name_string self work_dir w =
     (let src = ''coboltest.cob'';
          source_name = os_path_join work_dir src;
          output_name = os_path_join work_dir ''coboltest'';
          ev1 = [WriteFile source_name sanity_source]
      in case write_file h source_name sanity_source w of
           (Some e, w1) \<Rightarrow> (Inl (OSError e), ev1, w1)
         | (None, w1) \<Rightarrow>
             (let argv = exelist self @ [''-x'', ''-o'', output_name, src];
                  ev2 = ev1 @ [Popen argv work_dir]
              in case popen_wait h argv work_dir w1 of
                   (Inl e, w2) \<Rightarrow> (Inl (OSError e), ev2, w2)
                 | (Inr returncode, w2) \<Rightarrow>
                     if returncode \<noteq> 0
                     then (Inl (EnvironmentException (cannot_compile_message (name_string self))),
                           ev2, w2)
                     else if is_cross self then (Inr (), ev2, w2)
                     else (let ev3 = ev2 @ [Call output_name]
                           in case subprocess_call h output_name w2 of
                                (Inl e, w3) \<Rightarrow> (Inl (OSError e), ev3, w3)
                              | (Inr rc, w3) \<Rightarrow>
                                  if rc \<noteq> 0
                                  then (Inl (EnvironmentException
                                               (not_runnable_message (name_string self))),
                                        ev3, w3)
                                  else (Inr (), ev3, w3))))"

subsection \<open>Descriptions the code is compared with\<close>

text \<open>
  The spec describes \<^verbatim>\<open>compute_parameters_with_absolute_paths\<close> token by token: a
  token whose first two characters are \<^verbatim>\<open>-I\<close> or \<^verbatim>\<open>-L\<close> keeps them and has the rest
  replaced by the normalized join of the build directory with it; any other token is
  left as it is.
\<close>

definition absolute_token :: "string \<Rightarrow> string \<Rightarrow> string" where
  "absolute_token build_dir t =
     (if take 2 t = ''-I'' \<or> take 2 t = ''-L''
      then take 2 t @ os_path_normpath (os_path_join build_dir (drop 2 t))
      else t)"

text \<open>
  A component that \<^verbatim>\<open>normpath\<close> keeps where it stands: not empty, not \<^verbatim>\<open>.\<close>, not \<^verbatim>\<open>..\<close>,
  and free of separators.
\<close>

definition clean_component :: "string \<Rightarrow> bool" where
  "clean_component x = (x \<noteq> [] \<and> x \<noteq> ''.'' \<and> x \<noteq> ''..'' \<and> CHR ''/'' \<notin> set x)"

text \<open>
  The final extension of a path, described without indices. The base name is what
  follows the last separator. Its leading dots belong to the name; the extension
  starts at the last dot of what remains, and is empty when no dot remains.
\<close>

definition basename_of :: "string \<Rightarrow> string" where
  "basename_of p = rev (takeWhile (\<lambda>c. c \<noteq> CHR ''/'') (rev p))"

definition final_extension :: "string \<Rightarrow> string" where
  "final_extension p =
     (let stem = dropWhile (\<lambda>c. c = CHR ''.'') (basename_of p)
      in if CHR ''.'' \<in> set stem
         then CHR ''.'' # rev (takeWhile (\<lambda>c. c \<noteq> CHR ''.'') (rev stem))
         else [])"

subsection \<open>A host for concrete runs\<close>

text \<open>
  A host whose world is the log of what was really done: every operation succeeds as
  an operating-system call and appends its target to the log; the compile step exits
  with \<open>compile_rc\<close> and the produced binary with \<open>run_rc\<close>.
\<close>

definition sample_host :: "int \<Rightarrow> int \<Rightarrow> string list host" where
  "sample_host compile_rc run_rc =
     \<lparr> write_file = (\<lambda>path text w. (None, w @ [path])),
       popen_wait = (\<lambda>argv cwd w. (Inr compile_rc, w @ [join_sep '' '' argv])),
       subprocess_call = (\<lambda>path w. (Inr run_rc, w @ [path])) \<rparr>"

definition sample_compiler :: "bool \<Rightarrow> CobolCompiler" where
  "sample_compiler cross = \<lparr> exelist = [''cobc''], version = ''3.2'', is_cross = cross \<rparr>"

definition sample_name_string :: "CobolCompiler \<Rightarrow> string" where
  "sample_name_string c = join_sep '' '' (exelist c)"

section \<open>Properties\<close>

declare compute_loop.simps [simp del]

declare splitext_loop.simps [simp del]

subsection \<open>Splitting and joining at the separator\<close>

lemma split_sep_nonempty: "split_sep c xs \<noteq> []"
  by (induction xs) (auto split: list.splits)

lemma split_sep_snoc_sep: "split_sep c (xs @ [c]) = split_sep c xs @ [[]]"
  by (induction xs) (auto split: list.splits simp: split_sep_nonempty)

lemma split_sep_no_sep: "c \<notin> set x \<Longrightarrow> split_sep c x = [x]"
  by (induction x) auto

lemma split_sep_append: "c \<notin> set x \<Longrightarrow> split_sep c (x @ c # ys) = x # split_sep c ys"
  by (induction x) auto

lemma split_sep_join_sep:
  "cs \<noteq> [] \<Longrightarrow> \<forall>x\<in>set cs. c \<notin> set x \<Longrightarrow> split_sep c (join_sep [c] cs) = cs"
proof (induction "[c]" cs rule: join_sep.induct)
  case 1
  then show ?case by simp
next
  case (2 x)
  then show ?case by (simp add: split_sep_no_sep)
next
  case (3 x y ys)
  then show ?case by (simp add: split_sep_append)
qed

lemma split_sep_parts_no_sep: "x \<in> set (split_sep c xs) \<Longrightarrow> c \<notin> set x"
proof (induction xs arbitrary: x)
  case Nil
  then show ?case by simp
next
  case (Cons a xs)
  show ?case
  proof (cases "a = c")
    case True
    with Cons show ?thesis by auto
  next
    case False
    obtain y ys where s: "split_sep c xs = y # ys"
      using split_sep_nonempty [of c xs] by (cases "split_sep c xs") auto
    with Cons False show ?thesis by auto
  qed
qed

lemma foldl_normpath_step_snoc_empty:
  "foldl (normpath_step n) acc (cs @ [[]]) = foldl (normpath_step n) acc cs"
  by (simp add: normpath_step_def)

lemma initial_slashes_of_snoc_sep:
  "bd \<noteq> [] \<Longrightarrow> last bd \<noteq> CHR ''/'' \<Longrightarrow> initial_slashes_of (bd @ ''/'') = initial_slashes_of bd"
proof (cases bd)
  case Nil
  assume "bd \<noteq> []" with Nil show ?thesis by simp
next
  case (Cons a r)
  assume l: "last bd \<noteq> CHR ''/''"
  show ?thesis
  proof (cases r)
    case Nil
    with Cons l show ?thesis by (simp add: initial_slashes_of_def startswith_def sep_def)
  next
    case (Cons b r')
    note rb = Cons
    show ?thesis
    proof (cases r')
      case Nil
      with rb \<open>bd = a # r\<close> l show ?thesis
        by (simp add: initial_slashes_of_def startswith_def sep_def)
    next
      case (Cons d r'')
      with rb \<open>bd = a # r\<close> show ?thesis
        by (simp add: initial_slashes_of_def startswith_def sep_def)
    qed
  qed
qed

lemma endswith_sep: "endswith a sep = (a \<noteq> [] \<and> last a = CHR ''/'')"
proof (cases a rule: rev_cases)
  case Nil
  then show ?thesis by (simp add: endswith_def sep_def)
next
  case (snoc ys y)
  then show ?thesis by (simp add: endswith_def sep_def)
qed

lemma startswith_sep: "startswith s sep = (s \<noteq> [] \<and> hd s = CHR ''/'')"
  by (cases s) (simp_all add: startswith_def sep_def)

lemma os_path_join_empty:
  "os_path_join bd [] = (if bd = [] \<or> last bd = CHR ''/'' then bd else bd @ ''/'')"
  by (simp add: os_path_join_def endswith_sep startswith_sep) (simp add: sep_def)

lemma normpath_snoc_sep:
  assumes "bd \<noteq> []" "last bd \<noteq> CHR ''/''"
  shows "os_path_normpath (bd @ ''/'') = os_path_normpath bd"
proof -
  have a: "initial_slashes_of (bd @ ''/'') = initial_slashes_of bd"
    using assms by (rule initial_slashes_of_snoc_sep)
  have b: "foldl (normpath_step n) [] (split_sep CHR ''/'' (bd @ ''/''))
             = foldl (normpath_step n) [] (split_sep CHR ''/'' bd)" for n
    by (simp only: split_sep_snoc_sep foldl_normpath_step_snoc_empty)
  have c: "(bd @ ''/'' = []) = False" by simp
  have d: "(bd = []) = False" using assms(1) by simp
  show ?thesis
    unfolding os_path_normpath_def Let_def a b c d ..
qed

lemma normpath_join_empty: "os_path_normpath (os_path_join bd []) = os_path_normpath bd"
  by (simp add: os_path_join_empty normpath_snoc_sep)

lemma normpath_nonempty: "os_path_normpath p \<noteq> []"
  by (simp add: os_path_normpath_def Let_def)

subsection \<open>\<^verbatim>\<open>normpath\<close> on absolute paths\<close>

text \<open>
  On a path that begins with a separator, \<^verbatim>\<open>normpath\<close> returns one or two separators
  followed by clean components joined by single separators, and such a path is a
  fixed point of \<^verbatim>\<open>normpath\<close>.
\<close>

lemma normpath_step_clean_inv:
  assumes "0 < n" "\<forall>x\<in>set acc. clean_component x" "CHR ''/'' \<notin> set c"
  shows "\<forall>x\<in>set (normpath_step n acc c). clean_component x"
proof -
  have "\<forall>x\<in>set (butlast acc). clean_component x"
    using assms(2) by (auto dest: in_set_butlastD)
  moreover have "acc \<noteq> [] \<Longrightarrow> last acc \<noteq> ''..''"
    using assms(2) last_in_set [of acc] by (auto simp: clean_component_def)
  ultimately show ?thesis
    using assms by (auto simp: normpath_step_def clean_component_def)
qed

lemma foldl_normpath_step_clean_inv:
  "0 < n \<Longrightarrow> \<forall>x\<in>set acc. clean_component x \<Longrightarrow> \<forall>c\<in>set cs. CHR ''/'' \<notin> set c \<Longrightarrow>
   \<forall>x\<in>set (foldl (normpath_step n) acc cs). clean_component x"
proof (induction cs arbitrary: acc)
  case Nil
  then show ?case by simp
next
  case (Cons c cs)
  have "\<forall>x\<in>set (normpath_step n acc c). clean_component x"
    using Cons.prems by (intro normpath_step_clean_inv) auto
  with Cons.IH [of "normpath_step n acc c"] Cons.prems show ?case by simp
qed

lemma foldl_normpath_step_clean_id:
  "\<forall>x\<in>set cs. clean_component x \<Longrightarrow> foldl (normpath_step n) acc cs = acc @ cs"
  by (induction cs arbitrary: acc) (auto simp: normpath_step_def clean_component_def)

lemma join_sep_hd: "cs \<noteq> [] \<Longrightarrow> \<exists>rest. join_sep s cs = hd cs @ rest"
  by (induction s cs rule: join_sep.induct) auto

lemma join_sep_clean_hd:
  assumes "\<forall>x\<in>set cs. clean_component x"
  shows "join_sep s cs = [] \<or> hd (join_sep s cs) \<noteq> CHR ''/''"
proof (cases cs)
  case Nil
  then show ?thesis by simp
next
  case (Cons x xs)
  then obtain rest where r: "join_sep s cs = x @ rest"
    using join_sep_hd [of cs s] by auto
  have x: "x \<noteq> []" "CHR ''/'' \<notin> set x"
    using assms Cons by (auto simp: clean_component_def)
  then have "hd x \<noteq> CHR ''/''" by (cases x) auto
  with r x show ?thesis by simp
qed

lemma concat_replicate_sep: "concat (replicate n sep) = replicate n CHR ''/''"
  by (induction n) (simp_all add: sep_def)

lemma os_path_normpath_alt:
  assumes "p \<noteq> []"
  shows "os_path_normpath p =
           (let n = initial_slashes_of p;
                cs = foldl (normpath_step n) [] (split_sep CHR ''/'' p);
                r = replicate n CHR ''/'' @ join_sep sep cs
            in if r = [] then ''.'' else r)"
  using assms by (cases "initial_slashes_of p = 0")
    (simp_all add: os_path_normpath_def Let_def concat_replicate_sep)

lemma initial_slashes_of_replicate:
  assumes "J = [] \<or> hd J \<noteq> CHR ''/''" "n = 1 \<or> n = 2"
  shows "initial_slashes_of (replicate n CHR ''/'' @ J) = n"
  using assms by (cases J) (auto simp: initial_slashes_of_def startswith_def sep_def numeral_2_eq_2)

lemma split_sep_replicate:
  "split_sep c (replicate n c @ J) = replicate n [] @ split_sep c J"
  by (induction n) auto

lemma foldl_normpath_step_replicate_empty:
  "foldl (normpath_step m) acc (replicate n [] @ xs) = foldl (normpath_step m) acc xs"
  by (induction n) (auto simp: normpath_step_def)

lemma initial_slashes_of_cases:
  "initial_slashes_of p = 0 \<and> \<not> startswith p sep
   \<or> (initial_slashes_of p = 1 \<or> initial_slashes_of p = 2) \<and> startswith p sep"
  by (simp add: initial_slashes_of_def)

lemma split_sep_join_clean:
  assumes "\<forall>x\<in>set cs. clean_component x"
  shows "foldl (normpath_step n) [] (split_sep CHR ''/'' (join_sep sep cs)) = cs"
proof (cases "cs = []")
  case True
  then show ?thesis by (simp add: normpath_step_def)
next
  case False
  have "split_sep CHR ''/'' (join_sep sep cs) = cs"
    unfolding sep_def using False assms
    by (intro split_sep_join_sep) (auto simp: clean_component_def)
  then show ?thesis
    using assms by (simp add: foldl_normpath_step_clean_id)
qed

lemma normpath_of_normal_absolute:
  assumes "\<forall>x\<in>set cs. clean_component x" "n = 1 \<or> n = 2"
  shows "os_path_normpath (replicate n CHR ''/'' @ join_sep sep cs)
           = replicate n CHR ''/'' @ join_sep sep cs"
proof -
  let ?J = "join_sep sep cs"
  let ?r = "replicate n CHR ''/'' @ ?J"
  have hd: "?J = [] \<or> hd ?J \<noteq> CHR ''/''"
    using assms(1) by (rule join_sep_clean_hd)
  have ne: "?r \<noteq> []"
    using assms(2) by auto
  have i: "initial_slashes_of ?r = n"
    using hd assms(2) by (rule initial_slashes_of_replicate)
  have f: "foldl (normpath_step n) [] (split_sep CHR ''/'' ?r) = cs"
    by (simp only: split_sep_replicate foldl_normpath_step_replicate_empty
        split_sep_join_clean [OF assms(1)])
  have "os_path_normpath ?r = (if ?r = [] then ''.'' else ?r)"
    unfolding os_path_normpath_alt [OF ne] Let_def i f ..
  with ne show ?thesis by simp
qed

lemma normpath_absolute_shape:
  assumes "startswith p sep"
  shows "\<exists>n cs. (n = 1 \<or> n = 2) \<and> (\<forall>x\<in>set cs. clean_component x)
           \<and> os_path_normpath p = replicate n CHR ''/'' @ join_sep sep cs"
proof -
  let ?n = "initial_slashes_of p"
  let ?cs = "foldl (normpath_step ?n) [] (split_sep CHR ''/'' p)"
  have n: "?n = 1 \<or> ?n = 2"
    using assms initial_slashes_of_cases [of p] by auto
  have ne: "p \<noteq> []" using assms by (auto simp: startswith_sep)
  have c: "\<forall>x\<in>set ?cs. clean_component x"
    using n by (intro foldl_normpath_step_clean_inv) (auto dest: split_sep_parts_no_sep)
  have "os_path_normpath p = replicate ?n CHR ''/'' @ join_sep sep ?cs"
    using n by (auto simp: os_path_normpath_alt [OF ne] Let_def)
  with n c show ?thesis by blast
qed

lemma normpath_absolute_idem:
  assumes "startswith p sep"
  shows "startswith (os_path_normpath p) sep
         \<and> os_path_normpath (os_path_normpath p) = os_path_normpath p"
proof -
  obtain n cs where n: "n = 1 \<or> n = 2" and c: "\<forall>x\<in>set cs. clean_component x"
    and e: "os_path_normpath p = replicate n CHR ''/'' @ join_sep sep cs"
    using normpath_absolute_shape [OF assms] by blast
  have "startswith (os_path_normpath p) sep"
    using n unfolding e by (auto simp: startswith_sep)
  moreover have "os_path_normpath (os_path_normpath p) = os_path_normpath p"
    unfolding e using c n by (rule normpath_of_normal_absolute)
  ultimately show ?thesis by simp
qed

lemma os_path_join_absolute:
  "startswith a sep \<or> startswith b sep \<Longrightarrow> startswith (os_path_join a b) sep"
  by (auto simp: os_path_join_def startswith_sep)

lemma os_path_join_absolute_right: "startswith b sep \<Longrightarrow> os_path_join a b = b"
  by (simp add: os_path_join_def)

subsection \<open>The loop of \<^verbatim>\<open>compute_parameters_with_absolute_paths\<close>\<close>

text \<open>
  The loop over the indices, overwriting in place, computes the token-wise map: the
  entries before the index are final, those from the index on are still the input's.
\<close>

lemma compute_loop_map:
  "idx \<le> length ps \<Longrightarrow>
   compute_loop bd idx ps = take idx ps @ map (absolute_token bd) (drop idx ps)"
proof (induction bd idx ps rule: compute_loop.induct)
  case (1 bd idx ps)
  show ?case
  proof (cases "idx < length ps")
    case False
    have "compute_loop bd idx ps = ps"
      using False by (subst compute_loop.simps) simp
    with False "1.prems" show ?thesis by simp
  next
    case True
    define ps' where "ps' = ps[idx := absolute_token bd (ps ! idx)]"
    have upd: "(if take 2 (ps ! idx) = ''-I'' \<or> take 2 (ps ! idx) = ''-L''
                then ps[idx := take 2 (ps ! idx)
                        @ os_path_normpath (os_path_join bd (drop 2 (ps ! idx)))]
                else ps) = ps'"
      by (simp add: ps'_def absolute_token_def)
    have len: "idx + 1 \<le> length ps'"
      using True by (simp add: ps'_def)
    have step: "compute_loop bd idx ps = compute_loop bd (idx + 1) ps'"
      using True upd by (subst compute_loop.simps) (simp add: Let_def)
    have ih: "compute_loop bd (idx + 1) ps'
                = take (idx + 1) ps' @ map (absolute_token bd) (drop (idx + 1) ps')"
      using "1.IH" [OF True refl] len upd by simp
    have t: "take (idx + 1) ps' = take idx ps @ [absolute_token bd (ps ! idx)]"
      using True by (simp add: ps'_def take_Suc_conv_app_nth)
    have d: "drop (idx + 1) ps' = drop (Suc idx) ps"
      by (simp add: ps'_def)
    have "drop idx ps = ps ! idx # drop (Suc idx) ps"
      using True by (simp add: Cons_nth_drop_Suc)
    with step ih t d show ?thesis by simp
  qed
qed

lemma compute_map:
  "compute_parameters_with_absolute_paths ps bd = map (absolute_token bd) ps"
  by (simp add: compute_parameters_with_absolute_paths_def compute_loop_map)

lemma startswith_I: "startswith t ''-I'' = (take 2 t = ''-I'')"
  by (simp add: startswith_def numeral_2_eq_2)

lemma startswith_L: "startswith t ''-L'' = (take 2 t = ''-L'')"
  by (simp add: startswith_def numeral_2_eq_2)

lemma absolute_token_cases:
  "startswith t ''-I'' \<Longrightarrow>
     absolute_token bd t = ''-I'' @ os_path_normpath (os_path_join bd (drop 2 t))"
  "startswith t ''-L'' \<Longrightarrow>
     absolute_token bd t = ''-L'' @ os_path_normpath (os_path_join bd (drop 2 t))"
  "\<not> startswith t ''-I'' \<Longrightarrow> \<not> startswith t ''-L'' \<Longrightarrow> absolute_token bd t = t"
  unfolding startswith_I startswith_L by (simp_all add: absolute_token_def)

lemma absolute_token_idem:
  assumes "startswith bd sep \<or> startswith (drop 2 t) sep"
  shows "absolute_token bd (absolute_token bd t) = absolute_token bd t"
proof (cases "take 2 t = ''-I'' \<or> take 2 t = ''-L''")
  case False
  then show ?thesis by (simp add: absolute_token_def)
next
  case True
  let ?q = "os_path_join bd (drop 2 t)"
  let ?r = "os_path_normpath ?q"
  have q: "startswith ?q sep"
    using assms by (rule os_path_join_absolute)
  have r: "startswith ?r sep" and rr: "os_path_normpath ?r = ?r"
    using normpath_absolute_idem [OF q] by simp_all
  have t': "absolute_token bd t = take 2 t @ ?r"
    using True by (simp add: absolute_token_def)
  have len: "length (take 2 t) = 2"
    using True by (auto simp del: length_take)
  have tk: "take 2 (take 2 t @ ?r) = take 2 t" and dr: "drop 2 (take 2 t @ ?r) = ?r"
    using len by simp_all
  have "absolute_token bd (take 2 t @ ?r) = take 2 t @ os_path_normpath (os_path_join bd ?r)"
    using True by (simp only: absolute_token_def tk dr if_True)
  also have "os_path_join bd ?r = ?r"
    using r by (rule os_path_join_absolute_right)
  finally show ?thesis
    by (simp only: t' rr)
qed

text \<open>
  C1: for every token list and build directory the result has the length of the
  input, and at every position: a token beginning with \<^verbatim>\<open>-I\<close> (or \<^verbatim>\<open>-L\<close>) has become
  \<^verbatim>\<open>-I\<close> (or \<^verbatim>\<open>-L\<close>) followed by the normalized join of the build directory with the
  token's path suffix, and any other token is the token of the input at that position.
\<close>

theorem compute_positional:
  "length (compute_parameters_with_absolute_paths ps bd) = length ps
   \<and> (\<forall>k<length ps.
        (startswith (ps ! k) ''-I'' \<longrightarrow>
           compute_parameters_with_absolute_paths ps bd ! k
             = ''-I'' @ os_path_normpath (os_path_join bd (drop 2 (ps ! k))))
      \<and> (startswith (ps ! k) ''-L'' \<longrightarrow>
           compute_parameters_with_absolute_paths ps bd ! k
             = ''-L'' @ os_path_normpath (os_path_join bd (drop 2 (ps ! k))))
      \<and> (\<not> startswith (ps ! k) ''-I'' \<and> \<not> startswith (ps ! k) ''-L'' \<longrightarrow>
           compute_parameters_with_absolute_paths ps bd ! k = ps ! k))"
  by (simp add: compute_map absolute_token_cases)

theorem compute_positional_witness:
  "compute_parameters_with_absolute_paths [''-Isub/../inc'', ''-O2'', ''-L/opt//lib'', ''-I''] ''/b'' ! 0
     = ''-I/b/inc''
   \<and> compute_parameters_with_absolute_paths [''-Isub/../inc'', ''-O2'', ''-L/opt//lib'', ''-I''] ''/b'' ! 1
     = ''-O2''
   \<and> compute_parameters_with_absolute_paths [''-Isub/../inc'', ''-O2'', ''-L/opt//lib'', ''-I''] ''/b'' ! 2
     = ''-L/opt/lib''"
proof -
  let ?ps = "[''-Isub/../inc'', ''-O2'', ''-L/opt//lib'', ''-I'']"
  have n1: "os_path_normpath (os_path_join ''/b'' ''sub/../inc'') = ''/b/inc''"
    by code_simp
  have n2: "os_path_normpath (os_path_join ''/b'' ''/opt//lib'') = ''/opt/lib''"
    by code_simp
  show ?thesis
    using compute_positional [of ?ps "''/b''"] n1 n2
    by (simp add: startswith_def)
qed

text \<open>
  C9: a token that is exactly \<^verbatim>\<open>-I\<close> or exactly \<^verbatim>\<open>-L\<close> is not passed through: it
  becomes the prefix followed by the normalized build directory itself.
\<close>

theorem compute_bare_prefix:
  assumes "k < length ps" and "ps ! k = ''-I'' \<or> ps ! k = ''-L''"
  shows "compute_parameters_with_absolute_paths ps bd ! k = ps ! k @ os_path_normpath bd
         \<and> compute_parameters_with_absolute_paths ps bd ! k \<noteq> ps ! k"
  using assms
  by (auto simp: compute_map absolute_token_def normpath_join_empty normpath_nonempty)

theorem compute_bare_prefix_witness:
  "compute_parameters_with_absolute_paths [''-I'', ''x'', ''-L''] ''/b/./c/'' ! 0 = ''-I/b/c''
   \<and> compute_parameters_with_absolute_paths [''-I'', ''x'', ''-L''] ''/b/./c/'' ! 2 = ''-L/b/c''"
proof -
  have n: "os_path_normpath ''/b/./c/'' = ''/b/c''"
    by code_simp
  show ?thesis
    using compute_bare_prefix [of 0 "[''-I'', ''x'', ''-L'']" "''/b/./c/''"]
      compute_bare_prefix [of 2 "[''-I'', ''x'', ''-L'']" "''/b/./c/''"] n
    by simp
qed

text \<open>
  C10: the function is total (its loop terminates on every list, and slices never
  raise); a token of fewer than two characters, the empty one included, fails both
  prefix tests and is passed through unchanged, and the length of the list is kept.
\<close>

theorem compute_short_tokens:
  "length (compute_parameters_with_absolute_paths ps bd) = length ps
   \<and> (\<forall>k<length ps. length (ps ! k) < 2 \<longrightarrow>
         \<not> startswith (ps ! k) ''-I'' \<and> \<not> startswith (ps ! k) ''-L''
         \<and> compute_parameters_with_absolute_paths ps bd ! k = ps ! k)"
proof -
  have "\<not> startswith t ''-I'' \<and> \<not> startswith t ''-L''" if "length t < 2" for t :: string
    using that unfolding startswith_I startswith_L by (auto simp del: length_take dest!: arg_cong [where f = length])
  then show ?thesis
    by (simp add: compute_map absolute_token_cases)
qed

theorem compute_short_tokens_witness:
  "length (compute_parameters_with_absolute_paths ['''', ''-'', ''I'', ''-Ix''] ''/b'') = 4
   \<and> compute_parameters_with_absolute_paths ['''', ''-'', ''I'', ''-Ix''] ''/b'' ! 0 = ''''
   \<and> compute_parameters_with_absolute_paths ['''', ''-'', ''I'', ''-Ix''] ''/b'' ! 1 = ''-''
   \<and> compute_parameters_with_absolute_paths ['''', ''-'', ''I'', ''-Ix''] ''/b'' ! 2 = ''I''"
  using compute_short_tokens [of "['''', ''-'', ''I'', ''-Ix'']" "''/b''"]
  by (simp add: nth_Cons')

text \<open>
  Applying the function twice is not the same as applying it once when both the build
  directory and a path suffix are relative: the second application prepends the build
  directory again.
\<close>

theorem compute_not_idempotent_relative:
  "compute_parameters_with_absolute_paths
     (compute_parameters_with_absolute_paths [''-Ifoo''] ''build'') ''build''
   \<noteq> compute_parameters_with_absolute_paths [''-Ifoo''] ''build''"
  by code_simp

text \<open>
  C4, amended: applying the function twice with the same build directory yields the
  same result as applying it once whenever the build directory is absolute (begins
  with \<^verbatim>\<open>/\<close>) or the path suffix of every \<^verbatim>\<open>-I\<close> and \<^verbatim>\<open>-L\<close> token is absolute.
\<close>

theorem compute_idempotent_absolute:
  assumes "startswith bd ''/''
           \<or> (\<forall>t\<in>set ps. startswith t ''-I'' \<or> startswith t ''-L''
                 \<longrightarrow> startswith (drop 2 t) ''/'')"
  shows "compute_parameters_with_absolute_paths
           (compute_parameters_with_absolute_paths ps bd) bd
         = compute_parameters_with_absolute_paths ps bd"
proof -
  have "absolute_token bd (absolute_token bd t) = absolute_token bd t" if t: "t \<in> set ps" for t
  proof (cases "take 2 t = ''-I'' \<or> take 2 t = ''-L''")
    case True
    have s: "startswith x ''/'' = startswith x sep" for x
      by (simp add: sep_def)
    from assms t True have "startswith bd sep \<or> startswith (drop 2 t) sep"
      unfolding s startswith_I startswith_L by blast
    then show ?thesis by (rule absolute_token_idem)
  next
    case False
    then show ?thesis by (simp add: absolute_token_def)
  qed
  then show ?thesis
    by (simp add: compute_map)
qed

theorem compute_idempotent_absolute_witness:
  "startswith ''/b'' ''/''
   \<and> compute_parameters_with_absolute_paths
       (compute_parameters_with_absolute_paths [''-Ifoo'', ''x''] ''/b'') ''/b''
     = compute_parameters_with_absolute_paths [''-Ifoo'', ''x''] ''/b''
   \<and> startswith (drop 2 ''-L/a/./c'') ''/''
   \<and> compute_parameters_with_absolute_paths
       (compute_parameters_with_absolute_paths [''-L/a/./c'', ''y''] ''build'') ''build''
     = compute_parameters_with_absolute_paths [''-L/a/./c'', ''y''] ''build''"
proof -
  have a: "startswith ''/b'' ''/''"
    by (simp add: startswith_def)
  have b: "\<forall>t\<in>set [''-L/a/./c'', ''y'']. startswith t ''-I'' \<or> startswith t ''-L''
         \<longrightarrow> startswith (drop 2 t) ''/''"
    by (simp add: startswith_def)
  have c: "startswith (drop 2 ''-L/a/./c'') ''/''"
    by (simp add: startswith_def)
  show ?thesis
    using a c compute_idempotent_absolute [of "''/b''" "[''-Ifoo'', ''x'']", OF disjI1, OF a]
      compute_idempotent_absolute [of "''build''" "[''-L/a/./c'', ''y'']", OF disjI2, OF b]
    by simp
qed

subsection \<open>\<^verbatim>\<open>splitext\<close> and the dependency file\<close>

lemma rfind_ge: "- 1 \<le> rfind p c"
  by (induction p) (auto simp: Let_def)

lemma rfind_less: "rfind p c < int (length p)"
  by (induction p) (auto simp: Let_def)

lemma rfind_nonneg_iff: "0 \<le> rfind p c \<longleftrightarrow> c \<in> set p"
  by (induction p) (auto simp: Let_def)

lemma rfind_notin: "c \<notin> set p \<Longrightarrow> rfind p c = - 1"
  using rfind_ge [of p c] rfind_nonneg_iff [of p c] by linarith

lemma rfind_append:
  "rfind (xs @ ys) c = (if c \<in> set ys then int (length xs) + rfind ys c else rfind xs c)"
proof (induction xs)
  case Nil
  then show ?case by (simp add: rfind_notin)
next
  case (Cons x xs)
  then show ?case
    using rfind_nonneg_iff [of ys c] by (auto simp: Let_def)
qed

lemma rfind_last_occurrence: "c \<notin> set b \<Longrightarrow> rfind (a @ c # b) c = int (length a)"
  by (simp add: rfind_append rfind_notin)

lemma splitext_loop_eq:
  "0 \<le> f \<Longrightarrow> d \<le> int (length p) \<Longrightarrow>
   splitext_loop p e d f =
     (if \<exists>j. nat f \<le> j \<and> j < nat d \<and> p ! j \<noteq> e
      then Some (take (nat d) p, drop (nat d) p) else None)"
proof (induction p e d f rule: splitext_loop.induct)
  case (1 p e d f)
  show ?case
  proof (cases "f < d")
    case False
    then have "splitext_loop p e d f = None"
      by (subst splitext_loop.simps) simp
    moreover have "\<not> (\<exists>j. nat f \<le> j \<and> j < nat d \<and> p ! j \<noteq> e)"
      using False by auto
    ultimately show ?thesis by simp
  next
    case True
    have in_range: "nat f < length p"
      using True "1.prems" by linarith
    have sl: "slice p f (f + 1) = [p ! nat f]"
      using in_range by (simp add: slice_def take_Suc_conv_app_nth [of 0] hd_drop_conv_nth
          take_Suc)
    show ?thesis
    proof (cases "p ! nat f = e")
      case False
      then have "splitext_loop p e d f = Some (take (nat d) p, drop (nat d) p)"
        using True sl by (subst splitext_loop.simps) simp
      moreover have "\<exists>j. nat f \<le> j \<and> j < nat d \<and> p ! j \<noteq> e"
        using False True "1.prems" by (intro exI [of _ "nat f"]) auto
      ultimately show ?thesis by simp
    next
      case eq: True
      have step: "splitext_loop p e d f = splitext_loop p e d (f + 1)"
        using True sl eq by (subst splitext_loop.simps) simp
      have ih: "splitext_loop p e d (f + 1) =
                  (if \<exists>j. nat (f + 1) \<le> j \<and> j < nat d \<and> p ! j \<noteq> e
                   then Some (take (nat d) p, drop (nat d) p) else None)"
        using "1.IH" [OF True] sl eq "1.prems" by simp
      have "(\<exists>j. nat (f + 1) \<le> j \<and> j < nat d \<and> p ! j \<noteq> e)
              = (\<exists>j. nat f \<le> j \<and> j < nat d \<and> p ! j \<noteq> e)"
      proof
        assume "\<exists>j. nat (f + 1) \<le> j \<and> j < nat d \<and> p ! j \<noteq> e"
        then obtain j where "nat (f + 1) \<le> j" "j < nat d" "p ! j \<noteq> e" by blast
        then show "\<exists>j. nat f \<le> j \<and> j < nat d \<and> p ! j \<noteq> e"
          by (intro exI [of _ j]) auto
      next
        assume "\<exists>j. nat f \<le> j \<and> j < nat d \<and> p ! j \<noteq> e"
        then obtain j where j: "nat f \<le> j" "j < nat d" "p ! j \<noteq> e" by blast
        with eq have "j \<noteq> nat f" by auto
        with j "1.prems" have "nat (f + 1) \<le> j" by linarith
        with j show "\<exists>j. nat (f + 1) \<le> j \<and> j < nat d \<and> p ! j \<noteq> e" by blast
      qed
      with step ih show ?thesis by simp
    qed
  qed
qed

lemma last_separator_split:
  "\<exists>pre b. p = pre @ b \<and> CHR ''/'' \<notin> set b \<and> rfind p CHR ''/'' + 1 = int (length pre)
           \<and> basename_of p = b"
proof (cases "CHR ''/'' \<in> set p")
  case False
  then have "takeWhile (\<lambda>c. c \<noteq> CHR ''/'') (rev p) = rev p"
    by (auto simp: takeWhile_eq_all_conv)
  then have bn: "basename_of p = p"
    unfolding basename_of_def by (simp only: rev_rev_ident)
  have "p = [] @ p \<and> CHR ''/'' \<notin> set p
      \<and> rfind p CHR ''/'' + 1 = int (length ([]::string)) \<and> basename_of p = p"
    using False bn by (simp add: rfind_notin)
  then show ?thesis by blast
next
  case True
  then obtain a b where ab: "p = a @ CHR ''/'' # b" "CHR ''/'' \<notin> set b"
    using split_list_last [of "CHR ''/''" p] by blast
  have "takeWhile (\<lambda>c. c \<noteq> CHR ''/'') (rev b @ CHR ''/'' # rev a) = rev b"
    using ab(2) by (subst takeWhile_append2) auto
  then have "basename_of p = b"
    by (simp add: basename_of_def ab(1))
  moreover have "rfind p CHR ''/'' + 1 = int (length (a @ ''/''))"
    using ab by (simp add: rfind_last_occurrence)
  moreover have "p = (a @ ''/'') @ b"
    using ab(1) by simp
  ultimately show ?thesis
    using ab(2) by blast
qed

lemma final_extension_no_dot:
  "CHR ''.'' \<notin> set (basename_of p) \<Longrightarrow> final_extension p = []"
  by (auto simp: final_extension_def Let_def dest: set_dropWhileD)

lemma final_extension_all_dots:
  assumes "basename_of p = b1 @ CHR ''.'' # b2" "CHR ''.'' \<notin> set b2" "\<forall>x\<in>set b1. x = CHR ''.''"
  shows "final_extension p = []"
proof -
  have "dropWhile (\<lambda>c. c = CHR ''.'') ((b1 @ ''.'') @ b2) = dropWhile (\<lambda>c. c = CHR ''.'') b2"
    using assms(3) by (intro dropWhile_append2) auto
  then have "CHR ''.'' \<notin> set (dropWhile (\<lambda>c. c = CHR ''.'') (basename_of p))"
    using assms(1,2) by (auto dest: set_dropWhileD)
  then show ?thesis
    by (simp add: final_extension_def Let_def)
qed

lemma final_extension_some:
  assumes "basename_of p = b1 @ CHR ''.'' # b2" "CHR ''.'' \<notin> set b2" "\<exists>x\<in>set b1. x \<noteq> CHR ''.''"
  shows "final_extension p = CHR ''.'' # b2"
proof -
  let ?s = "dropWhile (\<lambda>c. c = CHR ''.'') b1"
  obtain x where "x \<in> set b1" "x \<noteq> CHR ''.''"
    using assms(3) by blast
  then have "dropWhile (\<lambda>c. c = CHR ''.'') (b1 @ CHR ''.'' # b2) = ?s @ CHR ''.'' # b2"
    by (rule dropWhile_append1)
  then have stem: "dropWhile (\<lambda>c. c = CHR ''.'') (basename_of p) = ?s @ CHR ''.'' # b2"
    by (simp only: assms(1))
  have "takeWhile (\<lambda>c. c \<noteq> CHR ''.'') (rev b2 @ CHR ''.'' # rev ?s) = rev b2"
    using assms(2) by (subst takeWhile_append2) auto
  then show ?thesis
    by (simp add: final_extension_def Let_def stem)
qed

lemma range_chars:
  "(\<exists>j. length pre \<le> j \<and> j < length pre + length b1 \<and> (pre @ b1 @ rest) ! j \<noteq> e)
     = (\<exists>x\<in>set b1. x \<noteq> e)"
proof
  assume "\<exists>j. length pre \<le> j \<and> j < length pre + length b1 \<and> (pre @ b1 @ rest) ! j \<noteq> e"
  then obtain j where j: "length pre \<le> j" "j < length pre + length b1"
    "(pre @ b1 @ rest) ! j \<noteq> e" by blast
  have k: "j - length pre < length b1" "\<not> j < length pre"
    using j by linarith+
  then have "(pre @ b1 @ rest) ! j = b1 ! (j - length pre)"
    by (simp add: nth_append)
  moreover have "b1 ! (j - length pre) \<in> set b1"
    using k by (intro nth_mem)
  ultimately show "\<exists>x\<in>set b1. x \<noteq> e"
    using j(3) by metis
next
  assume "\<exists>x\<in>set b1. x \<noteq> e"
  then obtain i where i: "i < length b1" "b1 ! i \<noteq> e"
    by (auto simp: in_set_conv_nth)
  then have "(pre @ b1 @ rest) ! (length pre + i) = b1 ! i"
    by (simp add: nth_append)
  with i show "\<exists>j. length pre \<le> j \<and> j < length pre + length b1 \<and> (pre @ b1 @ rest) ! j \<noteq> e"
    by (intro exI [of _ "length pre + i"]) simp
qed

lemma splitext_spec:
  "\<exists>root. p = root @ final_extension p \<and> os_path_splitext p = (root, final_extension p)"
proof -
  obtain pre b where p: "p = pre @ b" and nb: "CHR ''/'' \<notin> set b"
    and si: "rfind p CHR ''/'' + 1 = int (length pre)" and base: "basename_of p = b"
    using last_separator_split [of p] by blast
  show ?thesis
  proof (cases "CHR ''.'' \<in> set b")
    case False
    have "rfind p CHR ''.'' = rfind pre CHR ''.''"
      using False by (simp add: p rfind_append)
    then have "\<not> rfind p CHR ''.'' > rfind p CHR ''/''"
      using rfind_less [of pre "CHR ''.''"] si by linarith
    then have "os_path_splitext p = (p, [])"
      by (simp add: os_path_splitext_def splitext_generic_def Let_def)
    moreover have "final_extension p = []"
      using False base by (simp add: final_extension_no_dot)
    ultimately show ?thesis by simp
  next
    case True
    then obtain b1 b2 where b: "b = b1 @ CHR ''.'' # b2" and nd: "CHR ''.'' \<notin> set b2"
      using split_list_last [of "CHR ''.''" b] by blast
    define d where "d = length pre + length b1"
    have "p = (pre @ b1) @ CHR ''.'' # b2"
      by (simp add: p b)
    then have d: "rfind p CHR ''.'' = int d"
      using nd rfind_last_occurrence [of "CHR ''.''" b2 "pre @ b1"] by (simp add: d_def)
    have gt: "rfind p CHR ''.'' > rfind p CHR ''/''"
      using d si by (simp add: d_def)
    have tk: "take d p = pre @ b1" and dr: "drop d p = CHR ''.'' # b2"
      by (simp_all add: p b d_def)
    have "d \<le> length p"
      by (simp add: p b d_def)
    then have "splitext_loop p CHR ''.'' (int d) (int (length pre)) =
            (if \<exists>j. nat (int (length pre)) \<le> j \<and> j < nat (int d) \<and> p ! j \<noteq> CHR ''.''
             then Some (take (nat (int d)) p, drop (nat (int d)) p)
             else None)"
      by (intro splitext_loop_eq) simp_all
    then have "splitext_loop p CHR ''.'' (int d) (int (length pre)) =
            (if \<exists>j. length pre \<le> j \<and> j < d \<and> p ! j \<noteq> CHR ''.''
             then Some (pre @ b1, CHR ''.'' # b2) else None)"
      by (simp only: nat_int tk dr)
    also have "(\<exists>j. length pre \<le> j \<and> j < d \<and> p ! j \<noteq> CHR ''.'')
                 = (\<exists>x\<in>set b1. x \<noteq> CHR ''.'')"
      using range_chars [of pre b1 "CHR ''.'' # b2" "CHR ''.''"] by (simp add: p b d_def)
    finally have loop: "splitext_loop p CHR ''.'' (int d) (int (length pre)) =
            (if \<exists>x\<in>set b1. x \<noteq> CHR ''.'' then Some (pre @ b1, CHR ''.'' # b2) else None)" .
    have res: "os_path_splitext p =
            (if \<exists>x\<in>set b1. x \<noteq> CHR ''.'' then (pre @ b1, CHR ''.'' # b2) else (p, []))"
      using gt by (simp add: os_path_splitext_def splitext_generic_def Let_def d si loop)
    show ?thesis
    proof (cases "\<exists>x\<in>set b1. x \<noteq> CHR ''.''")
      case True
      then have "final_extension p = CHR ''.'' # b2"
        using base b nd by (intro final_extension_some) auto
      moreover have "p = (pre @ b1) @ CHR ''.'' # b2"
        by (simp add: p b)
      ultimately show ?thesis
        using res True by auto
    next
      case False
      then have "final_extension p = []"
        using base b nd by (intro final_extension_all_dots [of p b1 b2]) auto
      then show ?thesis
        using res False by simp
    qed
  qed
qed

text \<open>
  C3: for every path \<open>outtarget\<close> and every second argument, the result is the
  two-token list of \<^verbatim>\<open>-MT\<close> and the path obtained from \<open>outtarget\<close> by replacing its final
  extension with \<^verbatim>\<open>.d\<close>, everything before the extension (directory and base name) kept;
  for \<^verbatim>\<open>foo.o\<close> it is \<^verbatim>\<open>-MT\<close>, \<^verbatim>\<open>foo.d\<close>.
\<close>

theorem dependency_gen_args_replaces_extension:
  "(\<exists>root. outtarget = root @ final_extension outtarget
       \<and> get_dependency_gen_args outtarget outfile = [''-MT'', root @ ''.d''])
   \<and> get_dependency_gen_args ''foo.o'' outfile = [''-MT'', ''foo.d'']"
proof -
  obtain root where r: "outtarget = root @ final_extension outtarget"
    and s: "os_path_splitext outtarget = (root, final_extension outtarget)"
    using splitext_spec [of outtarget] by blast
  have "get_dependency_gen_args outtarget outfile = [''-MT'', root @ ''.d'']"
    by (simp add: get_dependency_gen_args_def depfile_for_object_def get_depfile_suffix_def s)
  moreover have "depfile_for_object ''foo.o'' = ''foo.d''"
    by code_simp
  ultimately show ?thesis
    using r by (auto simp: get_dependency_gen_args_def)
qed

subsection \<open>Constant argument lists\<close>

text \<open>
  C7: for every path string \<open>p\<close> and every boolean \<open>s\<close>, \<^verbatim>\<open>get_include_args(p, s)\<close> is
  exactly the one-token list holding \<^verbatim>\<open>-I\<close> followed by \<open>p\<close>; the flag \<open>s\<close> has no effect.
\<close>

theorem get_include_args_one_token:
  "get_include_args p s = [''-I'' @ p] \<and> get_include_args p True = get_include_args p False"
  by (simp add: get_include_args_def)

text \<open>
  C8: the PIC, PIE, warning and always-on operations return the empty token list, the
  warning operation for every level.
\<close>

theorem empty_args_operations:
  "get_pic_args = [] \<and> get_pie_args = [] \<and> get_warn_args level = [] \<and> get_always_args = []"
  by (simp add: get_pic_args_def get_pie_args_def get_warn_args_def get_always_args_def)

subsection \<open>The sanity probe\<close>

text \<open>
  C2: when the source file is written and the compile step exits with a non-zero
  status, the probe raises \<^verbatim>\<open>EnvironmentException\<close> with the message that names the
  toolchain through \<^verbatim>\<open>name_string\<close>; the operations attempted are the write and the
  compile step only, and the world is the one the compile step left: the produced
  binary is never executed.
\<close>

theorem sanity_check_compile_fails:
  assumes "write_file h (os_path_join work_dir ''coboltest.cob'') sanity_source w = (None, w1)"
    and "popen_wait h
           (exelist self @ [''-x'', ''-o'', os_path_join work_dir ''coboltest'', ''coboltest.cob''])
           work_dir w1 = (Inr returncode, w2)"
    and "returncode \<noteq> 0"
  shows "sanity_check h name_string self work_dir w =
           (Inl (EnvironmentException
                   (''Cobol compiler '' @ name_string self @ '' cannot compile programs.'')),
            [WriteFile (os_path_join work_dir ''coboltest.cob'') sanity_source,
             Popen (exelist self @
                      [''-x'', ''-o'', os_path_join work_dir ''coboltest'', ''coboltest.cob''])
                   work_dir],
            w2)"
  using assms by (simp add: sanity_check_def cannot_compile_message_def Let_def)

theorem sanity_check_compile_fails_witness:
  "write_file (sample_host 1 0) (os_path_join ''/tmp/w'' ''coboltest.cob'') sanity_source []
     = (None, [''/tmp/w/coboltest.cob''])
   \<and> popen_wait (sample_host 1 0)
         (exelist (sample_compiler False)
            @ [''-x'', ''-o'', os_path_join ''/tmp/w'' ''coboltest'', ''coboltest.cob''])
         ''/tmp/w'' [''/tmp/w/coboltest.cob'']
       = (Inr 1, [''/tmp/w/coboltest.cob'', ''cobc -x -o /tmp/w/coboltest coboltest.cob''])
   \<and> (1::int) \<noteq> 0
   \<and> sanity_check (sample_host 1 0) sample_name_string (sample_compiler False) ''/tmp/w'' []
       = (Inl (EnvironmentException ''Cobol compiler cobc cannot compile programs.''),
          [WriteFile ''/tmp/w/coboltest.cob'' sanity_source,
           Popen [''cobc'', ''-x'', ''-o'', ''/tmp/w/coboltest'', ''coboltest.cob''] ''/tmp/w''],
          [''/tmp/w/coboltest.cob'', ''cobc -x -o /tmp/w/coboltest coboltest.cob''])"
proof -
  have w: "write_file (sample_host 1 0) (os_path_join ''/tmp/w'' ''coboltest.cob'')
             sanity_source [] = (None, [''/tmp/w/coboltest.cob''])"
    by (simp add: sample_host_def os_path_join_def startswith_def endswith_def sep_def)
  have c: "popen_wait (sample_host 1 0)
             (exelist (sample_compiler False)
                @ [''-x'', ''-o'', os_path_join ''/tmp/w'' ''coboltest'', ''coboltest.cob''])
             ''/tmp/w'' [''/tmp/w/coboltest.cob'']
           = (Inr 1, [''/tmp/w/coboltest.cob'', ''cobc -x -o /tmp/w/coboltest coboltest.cob''])"
    by (simp add: sample_host_def sample_compiler_def os_path_join_def startswith_def
        endswith_def sep_def)
  have n: "(1::int) \<noteq> 0" by simp
  show ?thesis
    using w c sanity_check_compile_fails [OF w c n, of sample_name_string]
    by (simp add: sample_compiler_def sample_name_string_def os_path_join_def startswith_def
        endswith_def sep_def)
qed

text \<open>
  C5: when the source file is written, the compile step exits with status 0 and the
  compiler is a cross compiler, the probe returns normally; the operations attempted
  are the write and the compile step only, and the world is the one the compile step
  left: the produced binary is never executed.
\<close>

theorem sanity_check_cross_succeeds:
  assumes "write_file h (os_path_join work_dir ''coboltest.cob'') sanity_source w = (None, w1)"
    and "popen_wait h
           (exelist self @ [''-x'', ''-o'', os_path_join work_dir ''coboltest'', ''coboltest.cob''])
           work_dir w1 = (Inr 0, w2)"
    and "is_cross self"
  shows "sanity_check h name_string self work_dir w =
           (Inr (),
            [WriteFile (os_path_join work_dir ''coboltest.cob'') sanity_source,
             Popen (exelist self @
                      [''-x'', ''-o'', os_path_join work_dir ''coboltest'', ''coboltest.cob''])
                   work_dir],
            w2)"
  using assms by (simp add: sanity_check_def Let_def)

theorem sanity_check_cross_succeeds_witness:
  "write_file (sample_host 0 2) (os_path_join ''/tmp/w'' ''coboltest.cob'') sanity_source []
     = (None, [''/tmp/w/coboltest.cob''])
   \<and> popen_wait (sample_host 0 2)
         (exelist (sample_compiler True)
            @ [''-x'', ''-o'', os_path_join ''/tmp/w'' ''coboltest'', ''coboltest.cob''])
         ''/tmp/w'' [''/tmp/w/coboltest.cob'']
       = (Inr 0, [''/tmp/w/coboltest.cob'', ''cobc -x -o /tmp/w/coboltest coboltest.cob''])
   \<and> is_cross (sample_compiler True)
   \<and> sanity_check (sample_host 0 2) sample_name_string (sample_compiler True) ''/tmp/w'' []
       = (Inr (),
          [WriteFile ''/tmp/w/coboltest.cob'' sanity_source,
           Popen [''cobc'', ''-x'', ''-o'', ''/tmp/w/coboltest'', ''coboltest.cob''] ''/tmp/w''],
          [''/tmp/w/coboltest.cob'', ''cobc -x -o /tmp/w/coboltest coboltest.cob''])"
proof -
  have w: "write_file (sample_host 0 2) (os_path_join ''/tmp/w'' ''coboltest.cob'')
             sanity_source [] = (None, [''/tmp/w/coboltest.cob''])"
    by (simp add: sample_host_def os_path_join_def startswith_def endswith_def sep_def)
  have c: "popen_wait (sample_host 0 2)
             (exelist (sample_compiler True)
                @ [''-x'', ''-o'', os_path_join ''/tmp/w'' ''coboltest'', ''coboltest.cob''])
             ''/tmp/w'' [''/tmp/w/coboltest.cob'']
           = (Inr 0, [''/tmp/w/coboltest.cob'', ''cobc -x -o /tmp/w/coboltest coboltest.cob''])"
    by (simp add: sample_host_def sample_compiler_def os_path_join_def startswith_def
        endswith_def sep_def)
  have x: "is_cross (sample_compiler True)"
    by (simp add: sample_compiler_def)
  show ?thesis
    using w c x sanity_check_cross_succeeds [OF w c x, of sample_name_string]
    by (simp add: sample_compiler_def os_path_join_def startswith_def endswith_def sep_def)
qed

text \<open>
  C6: when the source file is written, the compile step exits with status 0, the
  compiler is not a cross compiler and the produced binary runs and exits with a
  non-zero status, the probe raises \<^verbatim>\<open>EnvironmentException\<close> with the message that says
  the executables are not runnable and names the toolchain through \<^verbatim>\<open>name_string\<close>.
\<close>

theorem sanity_check_run_fails:
  assumes "write_file h (os_path_join work_dir ''coboltest.cob'') sanity_source w = (None, w1)"
    and "popen_wait h
           (exelist self @ [''-x'', ''-o'', os_path_join work_dir ''coboltest'', ''coboltest.cob''])
           work_dir w1 = (Inr 0, w2)"
    and "\<not> is_cross self"
    and "subprocess_call h (os_path_join work_dir ''coboltest'') w2 = (Inr rc, w3)"
    and "rc \<noteq> 0"
  shows "sanity_check h name_string self work_dir w =
           (Inl (EnvironmentException
                   (''Executables created by Cobol compiler '' @ name_string self
                      @ '' are not runnable.'')),
            [WriteFile (os_path_join work_dir ''coboltest.cob'') sanity_source,
             Popen (exelist self @
                      [''-x'', ''-o'', os_path_join work_dir ''coboltest'', ''coboltest.cob''])
                   work_dir,
             Call (os_path_join work_dir ''coboltest'')],
            w3)"
  using assms by (simp add: sanity_check_def not_runnable_message_def Let_def)

theorem sanity_check_run_fails_witness:
  "write_file (sample_host 0 2) (os_path_join ''/tmp/w'' ''coboltest.cob'') sanity_source []
     = (None, [''/tmp/w/coboltest.cob''])
   \<and> popen_wait (sample_host 0 2)
         (exelist (sample_compiler False)
            @ [''-x'', ''-o'', os_path_join ''/tmp/w'' ''coboltest'', ''coboltest.cob''])
         ''/tmp/w'' [''/tmp/w/coboltest.cob'']
       = (Inr 0, [''/tmp/w/coboltest.cob'', ''cobc -x -o /tmp/w/coboltest coboltest.cob''])
   \<and> \<not> is_cross (sample_compiler False)
   \<and> subprocess_call (sample_host 0 2) (os_path_join ''/tmp/w'' ''coboltest'')
         [''/tmp/w/coboltest.cob'', ''cobc -x -o /tmp/w/coboltest coboltest.cob'']
       = (Inr 2, [''/tmp/w/coboltest.cob'', ''cobc -x -o /tmp/w/coboltest coboltest.cob'',
                  ''/tmp/w/coboltest''])
   \<and> (2::int) \<noteq> 0
   \<and> sanity_check (sample_host 0 2) sample_name_string (sample_compiler False) ''/tmp/w'' []
       = (Inl (EnvironmentException
                 ''Executables created by Cobol compiler cobc are not runnable.''),
          [WriteFile ''/tmp/w/coboltest.cob'' sanity_source,
           Popen [''cobc'', ''-x'', ''-o'', ''/tmp/w/coboltest'', ''coboltest.cob''] ''/tmp/w'',
           Call ''/tmp/w/coboltest''],
          [''/tmp/w/coboltest.cob'', ''cobc -x -o /tmp/w/coboltest coboltest.cob'',
           ''/tmp/w/coboltest''])"
proof -
  have w: "write_file (sample_host 0 2) (os_path_join ''/tmp/w'' ''coboltest.cob'')
             sanity_source [] = (None, [''/tmp/w/coboltest.cob''])"
    by (simp add: sample_host_def os_path_join_def startswith_def endswith_def sep_def)
  have c: "popen_wait (sample_host 0 2)
             (exelist (sample_compiler False)
                @ [''-x'', ''-o'', os_path_join ''/tmp/w'' ''coboltest'', ''coboltest.cob''])
             ''/tmp/w'' [''/tmp/w/coboltest.cob'']
           = (Inr 0, [''/tmp/w/coboltest.cob'', ''cobc -x -o /tmp/w/coboltest coboltest.cob''])"
    by (simp add: sample_host_def sample_compiler_def os_path_join_def startswith_def
        endswith_def sep_def)
  have x: "\<not> is_cross (sample_compiler False)"
    by (simp add: sample_compiler_def)
  have r: "subprocess_call (sample_host 0 2) (os_path_join ''/tmp/w'' ''coboltest'')
             [''/tmp/w/coboltest.cob'', ''cobc -x -o /tmp/w/coboltest coboltest.cob'']
           = (Inr 2, [''/tmp/w/coboltest.cob'', ''cobc -x -o /tmp/w/coboltest coboltest.cob'',
                      ''/tmp/w/coboltest''])"
    by (simp add: sample_host_def os_path_join_def startswith_def endswith_def sep_def)
  have n: "(2::int) \<noteq> 0" by simp
  show ?thesis
    using w c x r sanity_check_run_fails [OF w c x r n, of sample_name_string]
    by (simp add: sample_compiler_def sample_name_string_def os_path_join_def startswith_def
        endswith_def sep_def)
qed

end
